theory Spec2Isabelle
  imports
    Complex_Main
    "HOL-Library.AList"
    "HOL-Library.Char_ord"
    "HOL-Library.List_Lexorder"
    "HOL-Library.Product_Lexorder"
begin

section \<open>JSON values as Python sees them\<close>

text \<open>
  The JSON columns (\<open>ConfigContext.data\<close>, \<open>local_context_data\<close>) hold what
  Python's JSON decoder produces: \<open>None\<close>, a bool, an int, a float, a str, a list or a
  dict. A dict is an association list in insertion order; a decoded dict never repeats a
  key, which \<open>distinct_keys\<close> below records where a property depends on it.
\<close>

datatype json =
    JNull
  | JBool bool
  | JInt int
  | JFloat rat
  | JStr string
  | JArr "json list"
  | JObj "(string \<times> json) list"

type_synonym obj = "(string \<times> json) list"

text \<open>Python's truth value of a decoded JSON value (\<open>if x:\<close>, \<open>x or y\<close>, \<open>x and y\<close>).\<close>

fun truthy :: "json \<Rightarrow> bool" where
  "truthy JNull = False"
| "truthy (JBool b) = b"
| "truthy (JInt i) = (i \<noteq> 0)"
| "truthy (JFloat r) = (r \<noteq> 0)"
| "truthy (JStr s) = (s \<noteq> [])"
| "truthy (JArr xs) = (xs \<noteq> [])"
| "truthy (JObj kvs) = (kvs \<noteq> [])"

text \<open>\<open>type(x) is dict\<close>.\<close>

fun is_dict :: "json \<Rightarrow> bool" where
  "is_dict (JObj kvs) = True"
| "is_dict v = False"

text \<open>The keys of a dict, and what a decoded dict guarantees about them.\<close>

definition keys :: "obj \<Rightarrow> string set" where
  "keys d = fst ` set d"

definition distinct_keys :: "obj \<Rightarrow> bool" where
  "distinct_keys d = distinct (map fst d)"

section \<open>Errors\<close>

text \<open>
  Every exception the modelled code can raise. \<open>ValidationError field message\<close> is
  Django's \<open>ValidationError({field: message})\<close>; \<open>ValueError message\<close> is Python's
  (raised by \<open>register_features\<close> itself and by a failed tuple unpacking);
  \<open>AttributeError\<close> is what calling \<open>.items()\<close> on a value that is not a dict raises;
  \<open>KeyError key\<close> is a failed dict subscript.
\<close>

datatype error =
    ValidationError string string
  | ValueError string
  | AttributeError
  | KeyError string

section \<open>Deep merge\<close>

text \<open>
  Modelled from the spec: \<open>utilities.utils.deepmerge\<close> is imported by
  \<open>extras/models/configcontexts.py\<close> but its module is not among the sources. The spec
  describes it as the "recursive merge of two mappings where nested mappings combine
  key-wise and all other values are overwritten by the later operand". The model copies
  the first mapping and then walks the items of the second one: a key that holds a mapping
  on both sides receives the recursive merge of the two, any other key receives the second
  mapping's value. A key that is new is appended, a key that exists keeps its position.
\<close>

function deepmerge :: "obj \<Rightarrow> obj \<Rightarrow> obj"
  and merge_items :: "obj \<Rightarrow> obj \<Rightarrow> obj \<Rightarrow> obj"
where
  "deepmerge original new = merge_items original original new"
| "merge_items original merged [] = merged"
| "merge_items original merged ((key, val) # rest) =
     merge_items original
       (AList.update key
          (case map_of original key of
             Some (JObj ov) \<Rightarrow> (case val of JObj nv \<Rightarrow> JObj (deepmerge ov nv) | _ \<Rightarrow> val)
           | _ \<Rightarrow> val)
          merged)
       rest"
  by pat_completeness auto
termination
  by (relation "measure (\<lambda>x. case x of Inl (a, n) \<Rightarrow> Suc (size (JObj n))
                                   | Inr (a, m, n) \<Rightarrow> size (JObj n))") auto

declare deepmerge.simps [simp del]

text \<open>
  The value \<open>deepmerge\<close> stores under a key, given what the first mapping holds there
  (\<open>None\<close> when the key is absent).
\<close>

definition merged_value :: "json option \<Rightarrow> json \<Rightarrow> json" where
  "merged_value old val =
     (case old of
        Some (JObj ov) \<Rightarrow> (case val of JObj nv \<Rightarrow> JObj (deepmerge ov nv) | _ \<Rightarrow> val)
      | _ \<Rightarrow> val)"

text \<open>
  A decoded JSON object repeats no key, at any depth of nested objects.
\<close>

fun wf_dict :: "obj \<Rightarrow> bool" where
  "wf_dict [] = True"
| "wf_dict ((k, v) # rest) =
     (k \<notin> fst ` set rest
      \<and> (case v of JObj d \<Rightarrow> wf_dict d | _ \<Rightarrow> True)
      \<and> wf_dict rest)"

text \<open>
  The shape under which regrouping a merge of three mappings is harmless: wherever the
  first and the third mapping both hold an object under a key, the second one omits the key
  or holds an object too, and the same is true of the three nested objects.
\<close>

fun merge_assoc_ok :: "obj \<Rightarrow> obj \<Rightarrow> obj \<Rightarrow> bool" where
  "merge_assoc_ok [] B C = True"
| "merge_assoc_ok ((k, a) # rest) B C =
     ((case a of
         JObj a' \<Rightarrow>
           (case map_of C k of
              Some (JObj c') \<Rightarrow>
                (case map_of B k of
                   None \<Rightarrow> True
                 | Some (JObj b') \<Rightarrow> merge_assoc_ok a' b' c'
                 | Some _ \<Rightarrow> False)
            | _ \<Rightarrow> True)
       | _ \<Rightarrow> True)
      \<and> merge_assoc_ok rest B C)"




text \<open>
  The merge is defined on mappings. The source hands it whatever the JSON column holds; a
  value that is not a dict has no \<open>items\<close>, so the call raises.
\<close>

definition deepmerge_call :: "obj \<Rightarrow> json \<Rightarrow> error + obj" where
  "deepmerge_call original new =
     (case new of JObj n \<Rightarrow> Inr (deepmerge original n) | _ \<Rightarrow> Inl AttributeError)"

section \<open>ConfigContext\<close>

text \<open>
  The columns of \<open>ConfigContext\<close> that the modelled methods read. The many-to-many scope
  relations (regions, sites, roles, tags, ...) are only read by the queryset, which is not
  among the sources; the model takes "this context applies to the object" as a predicate.
\<close>

record ConfigContext =
  name :: string
  weight :: nat
  description :: string
  is_active :: bool
  data :: json

text \<open>\<open>Meta.ordering = ['weight', 'name']\<close>.\<close>

definition meta_ordering :: "ConfigContext \<Rightarrow> nat \<times> string" where
  "meta_ordering c = (weight c, name c)"

definition object_form_message :: string where
  "object_form_message =
     ''JSON data must be in object form. Example: {'' @ [CHR 0x22] @ ''foo'' @ [CHR 0x22] @ '': 123}''"

text \<open>
  \<open>ConfigContext.clean\<close>. The inherited \<open>clean\<close> it calls first is Django's empty hook.
\<close>

definition ConfigContext_clean :: "ConfigContext \<Rightarrow> error + unit" where
  "ConfigContext_clean self =
     (if \<not> is_dict (data self) then Inl (ValidationError ''data'' object_form_message)
      else Inr ())"

section \<open>The store of contexts\<close>

text \<open>
  The database as the resolver sees it: the stored contexts, and a counter of the lookups
  made against them, so that "no lookup happens" is a statement about the state.
\<close>

record store =
  contexts :: "ConfigContext list"
  lookups :: nat

text \<open>
  Modelled from the spec: \<open>ConfigContextQuerySet.get_for_object\<close> (module
  \<open>extras.querysets\<close>) is not among the sources. The spec has it return "the ordered
  sequence of matching context payloads, ordered ascending by (weight, name)". Which
  contexts match is decided by scope relations the sources do not show, so it is the
  parameter \<open>applies\<close>. With \<open>aggregate_data=True\<close> the result is the list of the
  contexts' \<open>data\<close>.
\<close>

definition get_for_object :: "(ConfigContext \<Rightarrow> bool) \<Rightarrow> store \<Rightarrow> json list \<times> store" where
  "get_for_object applies s =
     (map data (sort_key meta_ordering (filter applies (contexts s))),
      s\<lparr>lookups := Suc (lookups s)\<rparr>)"

section \<open>ConfigContextModel\<close>

text \<open>
  A device or virtual machine, as \<open>ConfigContextModel\<close> reads it. The attribute
  \<open>config_context_data\<close> is set by a queryset annotation or not at all: \<open>None\<close> is
  "no such attribute" (\<open>hasattr\<close> is false), \<open>Some None\<close> is the attribute holding
  \<open>None\<close>, \<open>Some (Some xs)\<close> the attribute holding a list of payloads.
  \<open>local_context_data\<close> is the nullable JSON column.
\<close>

record target =
  config_context_data :: "json list option option"
  local_context_data :: json

text \<open>The loop \<open>for context in config_context_data: data = deepmerge(data, context)\<close>.\<close>

fun merge_contexts :: "obj \<Rightarrow> json list \<Rightarrow> error + obj" where
  "merge_contexts d [] = Inr d"
| "merge_contexts d (context # rest) =
     (case deepmerge_call d context of
        Inl e \<Rightarrow> Inl e
      | Inr d' \<Rightarrow> merge_contexts d' rest)"

text \<open>
  The payloads \<open>get_config_context\<close> merges, with the store after obtaining them:
  \<^verbatim>\<open>self.config_context_data or [] if hasattr(self, 'config_context_data') else
  ConfigContext.objects.get_for_object(self, aggregate_data=True)\<close>.
  The conditional expression binds weaker than \<open>or\<close>: an object that has the attribute
  never reaches the store, whatever the attribute holds.
\<close>

definition inherited_context_data ::
  "(ConfigContext \<Rightarrow> bool) \<Rightarrow> target \<Rightarrow> store \<Rightarrow> json list \<times> store"
where
  "inherited_context_data applies self s =
     (case config_context_data self of
        Some attr \<Rightarrow>
          ((case attr of
              None \<Rightarrow> []
            | Some xs \<Rightarrow> (if xs \<noteq> [] then xs else [])), s)
      | None \<Rightarrow> get_for_object applies s)"

text \<open>
  \<open>ConfigContextModel.get_config_context\<close>. It returns the rendered mapping or the
  exception raised, together with the store after the call.
\<close>

definition get_config_context ::
  "(ConfigContext \<Rightarrow> bool) \<Rightarrow> target \<Rightarrow> store \<Rightarrow> (error + obj) \<times> store"
where
  "get_config_context applies self s =
     (let (context_data, s') = inherited_context_data applies self s
      in case merge_contexts [] context_data of
           Inl e \<Rightarrow> (Inl e, s')
         | Inr d \<Rightarrow>
             if truthy (local_context_data self)
             then (deepmerge_call d (local_context_data self), s')
             else (Inr d, s'))"

text \<open>\<open>ConfigContextModel.clean\<close>; the inherited \<open>clean\<close> is again the empty hook.\<close>

definition ConfigContextModel_clean :: "target \<Rightarrow> error + unit" where
  "ConfigContextModel_clean self =
     (if truthy (local_context_data self) \<and> \<not> is_dict (local_context_data self)
      then Inl (ValidationError ''local_context_data'' object_form_message)
      else Inr ())"

section \<open>The feature registry\<close>

text \<open>
  Modelled from the spec: \<open>registry['model_features']\<close> (module \<open>extras.registry\<close>) is
  not among the sources. The spec has it as a "mapping from feature name \<rightarrow> mapping from
  app label \<rightarrow> set of model names", with one bucket per supported feature, each empty
  until a model registers. The outer mapping is a plain dict (a missing feature is a
  \<open>KeyError\<close>); the inner one creates the empty set for an app label on first use, as line
  64 of \<open>extras/utils.py\<close> needs for \<open>.add\<close> to work on a fresh app label.
\<close>

type_synonym bucket = "(string \<times> string set) list"

type_synonym model_features = "(string \<times> bucket) list"

definition registry_init :: "string list \<Rightarrow> model_features" where
  "registry_init extras_features = map (\<lambda>feature. (feature, [])) extras_features"

text \<open>
  The (app label, model name) pairs recorded under a feature: what a reader of the
  registry finds there.
\<close>

definition registered :: "model_features \<Rightarrow> string \<Rightarrow> (string \<times> string) set" where
  "registered r f =
     (case map_of r f of
        None \<Rightarrow> {}
      | Some b \<Rightarrow> {(app_label, model_name). \<exists>models. map_of b app_label = Some models
                                               \<and> model_name \<in> models})"

text \<open>
  Every bucket lists an app label once, as a dict does. The empty registry has the
  property and registration keeps it.
\<close>

definition wf_registry :: "model_features \<Rightarrow> bool" where
  "wf_registry r = (\<forall>f b. map_of r f = Some b \<longrightarrow> distinct (map fst b))"

text \<open>
  A model class, as \<open>register_features\<close> reads it: \<open>model._meta.label_lower\<close>, which
  Django builds as app label, a dot, model name.
\<close>

record model =
  label_lower :: string

text \<open>\<open>str.split(sep)\<close> for a one-character separator: never the empty list.\<close>

fun split_at :: "char \<Rightarrow> string \<Rightarrow> string list" where
  "split_at sep [] = [[]]"
| "split_at sep (c # cs) =
     (if c = sep then [] # split_at sep cs
      else (case split_at sep cs of
              [] \<Rightarrow> [[c]]
            | part # parts \<Rightarrow> (c # part) # parts))"

text \<open>The (app label, model name) pair a model's label splits into, if it does.\<close>

definition label_pairs :: "model \<Rightarrow> (string \<times> string) set" where
  "label_pairs m = {(a, mn). split_at CHR ''.'' (label_lower m) = [a, mn]}"

text \<open>The unpacking \<open>app_label, model_name = ...\<close>, which raises unless there are two parts.\<close>

fun unpack2 :: "string list \<Rightarrow> error + string \<times> string" where
  "unpack2 [a, b] = Inr (a, b)"
| "unpack2 [] = Inl (ValueError ''not enough values to unpack (expected 2, got 0)'')"
| "unpack2 [a] = Inl (ValueError ''not enough values to unpack (expected 2, got 1)'')"
| "unpack2 parts = Inl (ValueError ''too many values to unpack (expected 2)'')"

text \<open>\<open>bucket[app_label].add(model_name)\<close> on the inner mapping.\<close>

definition add_model :: "string \<Rightarrow> string \<Rightarrow> bucket \<Rightarrow> bucket" where
  "add_model app_label model_name b =
     AList.update app_label
       (insert model_name (case map_of b app_label of None \<Rightarrow> {} | Some models \<Rightarrow> models)) b"

text \<open>
  \<open>register_features\<close>. \<open>EXTRAS_FEATURES\<close> is a constant of \<open>extras.constants\<close>, not
  among the sources: it is the first parameter. The registry is mutated in place, so the
  state at the moment of an exception is part of the result.
\<close>

fun register_features ::
  "string list \<Rightarrow> model \<Rightarrow> string list \<Rightarrow> model_features \<Rightarrow> (error + unit) \<times> model_features"
where
  "register_features extras_features m [] r = (Inr (), r)"
| "register_features extras_features m (feature # rest) r =
     (if feature \<notin> set extras_features
      then (Inl (ValueError (feature @ '' is not a valid extras feature!'')), r)
      else case unpack2 (split_at CHR ''.'' (label_lower m)) of
             Inl e \<Rightarrow> (Inl e, r)
           | Inr (app_label, model_name) \<Rightarrow>
               (case map_of r feature of
                  None \<Rightarrow> (Inl (KeyError feature), r)
                | Some b \<Rightarrow>
                    register_features extras_features m rest
                      (AList.update feature (add_model app_label model_name b) r)))"

text \<open>
  Start-up: one \<open>register_features\<close> call per model class, in order, stopping at the
  first exception.
\<close>

fun register_models ::
  "string list \<Rightarrow> (model \<times> string list) list \<Rightarrow> model_features
     \<Rightarrow> (error + unit) \<times> model_features"
where
  "register_models extras_features [] r = (Inr (), r)"
| "register_models extras_features ((m, features) # rest) r =
     (case register_features extras_features m features r of
        (Inl e, r') \<Rightarrow> (Inl e, r')
      | (Inr u, r') \<Rightarrow> register_models extras_features rest r')"

subsection \<open>Query objects\<close>

text \<open>
  Django's \<open>Q\<close>, as far as \<open>FeatureQuery\<close> uses it: the empty \<open>Q()\<close>, a
  \<open>Q(app_label=..., model__in=...)\<close>, and the disjunction \<open>|\<close> builds. \<open>q_or\<close> is
  \<open>Q.__or__\<close>, which returns the other operand when one is empty. \<open>q_matches\<close> is the
  meaning of a \<open>Q\<close> as a filter on content types, given as (app label, model) pairs: an
  empty \<open>Q\<close> adds no condition, so every row passes.
\<close>

datatype Q = Q_empty | Q_kwargs string "string set" | Q_or Q Q

fun q_or :: "Q \<Rightarrow> Q \<Rightarrow> Q" where
  "q_or self Q_empty = self"
| "q_or Q_empty other = other"
| "q_or self other = Q_or self other"

fun q_matches :: "Q \<Rightarrow> string \<times> string \<Rightarrow> bool" where
  "q_matches Q_empty ct = True"
| "q_matches (Q_kwargs app_label models) ct = (fst ct = app_label \<and> snd ct \<in> models)"
| "q_matches (Q_or p q) ct = (q_matches p ct \<or> q_matches q ct)"

subsection \<open>FeatureQuery\<close>

record FeatureQuery =
  feature :: string

text \<open>\<open>FeatureQuery.__init__\<close>: it stores the feature name and reads nothing else.\<close>

definition FeatureQuery_init :: "string \<Rightarrow> FeatureQuery" where
  "FeatureQuery_init f = \<lparr>feature = f\<rparr>"

text \<open>The loop of \<open>get_query\<close> over the items of the feature's bucket.\<close>

fun or_items :: "Q \<Rightarrow> bucket \<Rightarrow> Q" where
  "or_items query [] = query"
| "or_items query ((app_label, models) # rest) =
     or_items (q_or query (Q_kwargs app_label models)) rest"

definition get_query :: "FeatureQuery \<Rightarrow> model_features \<Rightarrow> error + Q" where
  "get_query self r =
     (case map_of r (feature self) of
        None \<Rightarrow> Inl (KeyError (feature self))
      | Some b \<Rightarrow> Inr (or_items Q_empty b))"

text \<open>\<open>FeatureQuery.__call__\<close>.\<close>

definition FeatureQuery_call :: "FeatureQuery \<Rightarrow> model_features \<Rightarrow> error + Q" where
  "FeatureQuery_call self r = get_query self r"

section \<open>Example documents\<close>

text \<open>The two contexts of the spec's end-to-end example.\<close>

definition example_base :: ConfigContext where
  "example_base = \<lparr>name = ''base'', weight = 1000, description = [], is_active = True,
     data = JObj [(''a'', JInt 1), (''b'', JObj [(''x'', JInt 1)])]\<rparr>"

definition example_override :: ConfigContext where
  "example_override = \<lparr>name = ''override'', weight = 2000, description = [], is_active = True,
     data = JObj [(''b'', JObj [(''y'', JInt 2)]), (''c'', JInt 3)]\<rparr>"

section \<open>Validation of the JSON shape\<close>

lemma is_dict_iff: "is_dict v \<longleftrightarrow> (\<exists>kvs. v = JObj kvs)"
  by (cases v) simp_all

text \<open>
  C5: \<open>ConfigContext.clean\<close> raises a validation error keyed to the field \<open>data\<close>
  exactly when the stored value is not a JSON object. The list
  \<open>["not", "an", "object"]\<close> is rejected; the empty object passes, and merging it into any
  mapping leaves that mapping as it was.
\<close>

theorem ConfigContext_clean_rejects_exactly_non_objects:
  "((\<exists>msg. ConfigContext_clean c = Inl (ValidationError ''data'' msg)) \<longleftrightarrow> \<not> is_dict (data c))
   \<and> (ConfigContext_clean c = Inr () \<longleftrightarrow> is_dict (data c))
   \<and> ConfigContext_clean (c\<lparr>data := JArr [JStr ''not'', JStr ''an'', JStr ''object'']\<rparr>)
       = Inl (ValidationError ''data'' object_form_message)
   \<and> ConfigContext_clean (c\<lparr>data := JObj []\<rparr>) = Inr ()
   \<and> deepmerge d [] = d
   \<and> deepmerge_call d (JObj []) = Inr d"
  by (simp add: ConfigContext_clean_def deepmerge_call_def deepmerge.simps)

theorem ConfigContext_clean_rejects_exactly_non_objects_witness:
  "ConfigContext_clean \<lparr>name = ''ntp'', weight = 1000, description = [], is_active = True,
       data = JArr [JStr ''not'', JStr ''an'', JStr ''object'']\<rparr>
     = Inl (ValidationError ''data'' object_form_message)
   \<and> ConfigContext_clean \<lparr>name = ''ntp'', weight = 1000, description = [], is_active = True,
       data = JObj []\<rparr> = Inr ()
   \<and> deepmerge [(''a'', JInt 1)] [] = [(''a'', JInt 1)]"
  using ConfigContext_clean_rejects_exactly_non_objects
    [of "\<lparr>name = ''ntp'', weight = 1000, description = [], is_active = True, data = JNull\<rparr>"
        "[(''a'', JInt 1)]"]
  by simp

text \<open>
  C6, as stated, fails: the empty list and the empty string are present, are not objects,
  and pass \<open>ConfigContextModel.clean\<close>.
\<close>

theorem ConfigContextModel_clean_accepts_empty_non_objects:
  "ConfigContextModel_clean \<lparr>config_context_data = None, local_context_data = JArr []\<rparr> = Inr ()
   \<and> ConfigContextModel_clean \<lparr>config_context_data = None, local_context_data = JStr []\<rparr> = Inr ()
   \<and> JArr [] \<noteq> JNull \<and> \<not> is_dict (JArr [])
   \<and> JStr [] \<noteq> JNull \<and> \<not> is_dict (JStr [])"
  by (simp add: ConfigContextModel_clean_def)

text \<open>
  C6, amended: \<open>ConfigContextModel.clean\<close> raises a validation error keyed to the field
  \<open>local_context_data\<close> exactly when the value is truthy in Python's sense and is not a
  JSON object. Every falsy value (null, false, zero, the empty string, the empty list, the
  empty object) is accepted, and so is every object.
\<close>

theorem ConfigContextModel_clean_rejects_truthy_non_objects:
  "((\<exists>msg. ConfigContextModel_clean t = Inl (ValidationError ''local_context_data'' msg))
      \<longleftrightarrow> truthy (local_context_data t) \<and> \<not> is_dict (local_context_data t))
   \<and> (ConfigContextModel_clean t = Inr ()
      \<longleftrightarrow> \<not> truthy (local_context_data t) \<or> is_dict (local_context_data t))"
  by (simp add: ConfigContextModel_clean_def)

theorem ConfigContextModel_clean_rejects_truthy_non_objects_witness:
  "ConfigContextModel_clean \<lparr>config_context_data = None, local_context_data = JArr [JInt 1]\<rparr>
     = Inl (ValidationError ''local_context_data'' object_form_message)
   \<and> ConfigContextModel_clean \<lparr>config_context_data = None, local_context_data = JInt 0\<rparr> = Inr ()"
  using ConfigContextModel_clean_rejects_truthy_non_objects
    [of "\<lparr>config_context_data = None, local_context_data = JArr [JInt 1]\<rparr>"]
    ConfigContextModel_clean_rejects_truthy_non_objects
    [of "\<lparr>config_context_data = None, local_context_data = JInt 0\<rparr>"]
  by (simp add: ConfigContextModel_clean_def)

section \<open>Properties of the deep merge\<close>

lemma update_append_new: "k \<notin> fst ` set al \<Longrightarrow> AList.update k v al = al @ [(k, v)]"
  by (induction al) auto

lemma merge_items_lookup_absent:
  "k \<notin> fst ` set new \<Longrightarrow> map_of (merge_items original merged new) k = map_of merged k"
  by (induction new arbitrary: merged) (auto simp: update_conv')

lemma merge_items_lookup_present:
  "distinct (map fst new) \<Longrightarrow> map_of new k = Some v \<Longrightarrow>
   map_of (merge_items original merged new) k = Some (merged_value (map_of original k) v)"
proof (induction new arbitrary: merged)
  case Nil
  then show ?case by simp
next
  case (Cons p rest)
  obtain key val where p: "p = (key, val)" by (cases p)
  show ?case
  proof (cases "key = k")
    case True
    with Cons.prems p have "val = v" and "k \<notin> fst ` set rest" by auto
    then show ?thesis
      using p True by (simp add: merge_items_lookup_absent update_conv' merged_value_def)
  next
    case False
    with Cons p show ?thesis by simp
  qed
qed

lemma deepmerge_lookup_absent:
  "k \<notin> keys new \<Longrightarrow> map_of (deepmerge original new) k = map_of original k"
  by (simp add: keys_def merge_items_lookup_absent deepmerge.simps)

lemma deepmerge_lookup_present:
  "distinct_keys new \<Longrightarrow> map_of new k = Some v \<Longrightarrow>
   map_of (deepmerge original new) k = Some (merged_value (map_of original k) v)"
  by (simp add: distinct_keys_def merge_items_lookup_present deepmerge.simps)

lemma merged_value_non_dict: "\<not> is_dict v \<Longrightarrow> merged_value old v = v"
  by (cases v) (auto simp: merged_value_def split: option.splits json.splits)

lemma merge_items_fresh:
  "distinct (map fst new) \<Longrightarrow> fst ` set new \<inter> fst ` set merged = {} \<Longrightarrow>
   merge_items [] merged new = merged @ new"
proof (induction new arbitrary: merged)
  case Nil
  then show ?case by simp
next
  case (Cons p rest)
  obtain key val where p: "p = (key, val)" by (cases p)
  have "key \<notin> fst ` set merged" using Cons.prems p by auto
  then have u: "AList.update key val merged = merged @ [(key, val)]"
    by (rule update_append_new)
  have "fst ` set rest \<inter> fst ` set (merged @ [(key, val)]) = {}"
    using Cons.prems p by auto
  with Cons.IH [of "merged @ [(key, val)]"] Cons.prems 
  show ?case using p u by simp
qed

lemma deepmerge_empty_left: "distinct_keys new \<Longrightarrow> deepmerge [] new = new"
  using merge_items_fresh [of new "[]"] by (simp add: distinct_keys_def deepmerge.simps)


lemma merge_contexts_total:
  "\<forall>j \<in> set js. is_dict j \<Longrightarrow> \<exists>d'. merge_contexts d js = Inr d'"
  by (induction js arbitrary: d) (auto simp: deepmerge_call_def is_dict_iff)

lemma wf_dict_distinct: "wf_dict d \<Longrightarrow> distinct (map fst d)"
  by (induction d rule: wf_dict.induct) auto

lemma wf_dict_entry: "wf_dict d \<Longrightarrow> (k, JObj d') \<in> set d \<Longrightarrow> wf_dict d'"
  by (induction d rule: wf_dict.induct) auto

lemma merge_assoc_ok_entry:
  "merge_assoc_ok A B C \<Longrightarrow> (k, JObj a') \<in> set A \<Longrightarrow> map_of C k = Some (JObj c') \<Longrightarrow>
   map_of B k = Some b \<Longrightarrow> \<exists>b'. b = JObj b' \<and> merge_assoc_ok a' b' c'"
  by (induction A B C rule: merge_assoc_ok.induct) (auto split: json.splits option.splits)

lemma entry_size: "(k, v) \<in> set d \<Longrightarrow> size v < size (JObj d)"
  by (induction d) auto

lemma alist_eqI:
  "distinct (map fst xs) \<Longrightarrow> map fst xs = map fst ys \<Longrightarrow> (\<And>k. map_of xs k = map_of ys k) \<Longrightarrow>
   xs = ys"
proof (induction xs arbitrary: ys)
  case Nil
  then show ?case by simp
next
  case (Cons x xs)
  from Cons.prems(2) obtain y ys' where ys: "ys = y # ys'" by (cases ys) auto
  obtain k v where x: "x = (k, v)" by (cases x)
  obtain k' v' where y: "y = (k', v')" by (cases y)
  from Cons.prems(2) ys x y have kk: "k' = k" and keys: "map fst xs = map fst ys'" by auto
  from Cons.prems(3) [of k] ys x y kk have vv: "v' = v" by simp
  have notin: "k \<notin> fst ` set xs" using Cons.prems(1) x by simp
  then have notin': "k \<notin> fst ` set ys'" using keys by (metis set_map)
  have "\<And>j. map_of xs j = map_of ys' j"
  proof -
    fix j
    show "map_of xs j = map_of ys' j"
    proof (cases "j = k")
      case True
      from notin have "map_of xs k = None" by (simp add: map_of_eq_None_iff)
      moreover from notin' have "map_of ys' k = None" by (simp add: map_of_eq_None_iff)
      ultimately show ?thesis using True by simp
    next
      case False
      with Cons.prems(3) [of j] ys x y kk show ?thesis by simp
    qed
  qed
  with Cons.IH [OF _ keys] Cons.prems(1) have "xs = ys'" by simp
  with ys x y kk vv show ?case by simp
qed

lemma merge_items_keys:
  "distinct (map fst new) \<Longrightarrow>
   map fst (merge_items original merged new) =
     map fst merged @ filter (\<lambda>k. k \<notin> fst ` set merged) (map fst new)"
proof (induction new arbitrary: merged)
  case Nil
  then show ?case by simp
next
  case (Cons p rest)
  obtain key val where p: "p = (key, val)" by (cases p)
  let ?x = "case map_of original key of
              Some (JObj ov) \<Rightarrow> (case val of JObj nv \<Rightarrow> JObj (deepmerge ov nv) | _ \<Rightarrow> val)
            | _ \<Rightarrow> val"
  have fresh: "key \<notin> fst ` set rest" using Cons.prems p by simp
  have IH: "map fst (merge_items original (AList.update key ?x merged) rest) =
     map fst (AList.update key ?x merged)
       @ filter (\<lambda>k. k \<notin> fst ` set (AList.update key ?x merged)) (map fst rest)"
    using Cons.IH [of "AList.update key ?x merged"] Cons.prems by simp
  have flt: "filter (\<lambda>k. k \<notin> fst ` set (AList.update key ?x merged)) (map fst rest)
      = filter (\<lambda>k. k \<notin> fst ` set merged) (map fst rest)"
    using fresh by (auto simp: dom_update intro!: filter_cong)
  show ?case
  proof (cases "key \<in> fst ` set merged")
    case True
    then have "map fst (AList.update key ?x merged) = map fst merged"
      by (simp add: update_keys map_idI)
    with IH flt True p show ?thesis by simp
  next
    case False
    then have "AList.update key ?x merged = merged @ [(key, ?x)]"
      by (rule update_append_new)
    with IH flt False p show ?thesis by simp
  qed
qed

lemma deepmerge_keys:
  "distinct (map fst new) \<Longrightarrow>
   map fst (deepmerge original new) =
     map fst original @ filter (\<lambda>k. k \<notin> fst ` set original) (map fst new)"
  by (simp add: deepmerge.simps merge_items_keys)

lemma deepmerge_distinct:
  "distinct (map fst original) \<Longrightarrow> distinct (map fst new) \<Longrightarrow>
   distinct (map fst (deepmerge original new))"
  by (auto simp: deepmerge_keys)

lemma deepmerge_lookup:
  "distinct (map fst new) \<Longrightarrow>
   map_of (deepmerge original new) k =
     (case map_of new k of
        None \<Rightarrow> map_of original k
      | Some v \<Rightarrow> Some (merged_value (map_of original k) v))"
  using deepmerge_lookup_absent [of k new original]
    deepmerge_lookup_present [of new k _ original]
  by (auto simp: distinct_keys_def keys_def map_of_eq_None_iff split: option.splits)

lemma merged_value_None [simp]: "merged_value None v = v"
  by (simp add: merged_value_def)

lemma merged_value_dicts [simp]:
  "merged_value (Some (JObj a)) (JObj b) = JObj (deepmerge a b)"
  by (simp add: merged_value_def)

lemma merged_value_old_non_dict: "\<not> is_dict old \<Longrightarrow> merged_value (Some old) v = v"
  by (cases old) (simp_all add: merged_value_def)









lemma get_config_context_fst:
  "fst (get_config_context applies self s) =
     (case merge_contexts [] (fst (inherited_context_data applies self s)) of
        Inl e \<Rightarrow> Inl e
      | Inr d \<Rightarrow>
          if truthy (local_context_data self) then deepmerge_call d (local_context_data self)
          else Inr d)"
  by (simp add: get_config_context_def split_beta split: sum.splits)

lemma get_config_context_snd:
  "snd (get_config_context applies self s) = snd (inherited_context_data applies self s)"
  by (simp add: get_config_context_def split_beta split: sum.splits)

section \<open>The resolver\<close>

lemma example_sorted:
  "sort_key meta_ordering [example_override, example_base] = [example_base, example_override]"
  "sort_key meta_ordering [example_base, example_override] = [example_base, example_override]"
  by (simp_all add: meta_ordering_def example_base_def example_override_def)

lemma example_merge:
  "merge_contexts [] [data example_base, data example_override]
     = Inr [(''a'', JInt 1), (''b'', JObj [(''x'', JInt 1), (''y'', JInt 2)]), (''c'', JInt 3)]"
  by (simp add: example_base_def example_override_def deepmerge_call_def deepmerge.simps)

text \<open>
  C3: the end-to-end example. Whenever the contexts that apply to the object are exactly
  A (weight 1000, name "base") and B (weight 2000, name "override"), in whichever order the
  store holds them, and the local data is \<open>{"a": 9}\<close>, the resolver returns exactly
  \<open>{"a": 9, "b": {"x": 1, "y": 2}, "c": 3}\<close>.
\<close>

theorem end_to_end_example:
  assumes "filter applies (contexts s) = [example_base, example_override]
           \<or> filter applies (contexts s) = [example_override, example_base]"
    and "config_context_data self = None"
    and "local_context_data self = JObj [(''a'', JInt 9)]"
  shows "fst (get_config_context applies self s)
         = Inr [(''a'', JInt 9), (''b'', JObj [(''x'', JInt 1), (''y'', JInt 2)]), (''c'', JInt 3)]"
proof -
  have "sort_key meta_ordering (filter applies (contexts s)) = [example_base, example_override]"
    using assms(1) by (auto simp only: example_sorted)
  then have "fst (inherited_context_data applies self s) = [data example_base, data example_override]"
    using assms(2) by (simp add: inherited_context_data_def get_for_object_def)
  then have "merge_contexts [] (fst (inherited_context_data applies self s))
      = Inr [(''a'', JInt 1), (''b'', JObj [(''x'', JInt 1), (''y'', JInt 2)]), (''c'', JInt 3)]"
    by (simp only: example_merge)
  then show ?thesis
    using assms(3)
    by (simp add: get_config_context_fst deepmerge_call_def deepmerge.simps)
qed

theorem end_to_end_example_witness:
  "fst (get_config_context (\<lambda>c. is_active c)
         \<lparr>config_context_data = None, local_context_data = JObj [(''a'', JInt 9)]\<rparr>
         \<lparr>contexts = [example_override, example_base\<lparr>is_active := False, name := ''off''\<rparr>, example_base],
          lookups = 0\<rparr>)
   = Inr [(''a'', JInt 9), (''b'', JObj [(''x'', JInt 1), (''y'', JInt 2)]), (''c'', JInt 3)]"
  using end_to_end_example [of "\<lambda>c. is_active c"
      "\<lparr>contexts = [example_override, example_base\<lparr>is_active := False, name := ''off''\<rparr>, example_base],
        lookups = 0\<rparr>"
      "\<lparr>config_context_data = None, local_context_data = JObj [(''a'', JInt 9)]\<rparr>"]
  by (simp add: example_base_def example_override_def)

text \<open>
  C2: when the local context data is a non-empty JSON object, every key it sets to a value
  that is not an object (a scalar or an array) holds that value in the result, whatever
  the inherited contexts and their weights are. The inherited payloads are JSON objects, as
  validation guarantees; the resolver then returns a mapping.
\<close>

theorem local_context_data_wins:
  assumes obj: "local_context_data self = JObj l"
    and nonempty: "l \<noteq> []"
    and dk: "distinct_keys l"
    and kv: "map_of l k = Some v"
    and scalar: "\<not> is_dict v"
    and inherited: "\<forall>j \<in> set (fst (inherited_context_data applies self s)). is_dict j"
  shows "\<exists>d. fst (get_config_context applies self s) = Inr d \<and> map_of d k = Some v"
proof -
  from merge_contexts_total [OF inherited] obtain d0
    where d0: "merge_contexts [] (fst (inherited_context_data applies self s)) = Inr d0"
    by blast
  have "fst (get_config_context applies self s) = Inr (deepmerge d0 l)"
    using d0 obj nonempty by (simp add: get_config_context_fst deepmerge_call_def)
  moreover have "map_of (deepmerge d0 l) k = Some v"
    using deepmerge_lookup_present [OF dk kv] scalar by (simp add: merged_value_non_dict)
  ultimately show ?thesis by blast
qed

theorem local_context_data_wins_witness:
  "\<exists>d. fst (get_config_context (\<lambda>c. True)
            \<lparr>config_context_data = Some (Some [JObj [(''ntp'', JArr [JStr ''1.1.1.1''])]]),
             local_context_data = JObj [(''ntp'', JArr [JStr ''2.2.2.2''])]\<rparr>
            \<lparr>contexts = [], lookups = 0\<rparr>) = Inr d
       \<and> map_of d ''ntp'' = Some (JArr [JStr ''2.2.2.2''])"
  using local_context_data_wins [of
      "\<lparr>config_context_data = Some (Some [JObj [(''ntp'', JArr [JStr ''1.1.1.1''])]]),
        local_context_data = JObj [(''ntp'', JArr [JStr ''2.2.2.2''])]\<rparr>"
      "[(''ntp'', JArr [JStr ''2.2.2.2''])]" "''ntp''" "JArr [JStr ''2.2.2.2'']"
      "\<lambda>c. True" "\<lparr>contexts = [], lookups = 0\<rparr>"]
  by (simp add: distinct_keys_def inherited_context_data_def)




text \<open>
  C10: when the object has the attribute \<open>config_context_data\<close> and it holds \<open>None\<close>
  or the empty list, the resolver leaves the store as it was (no lookup) and returns the
  local data alone, or the empty mapping when there is no local data. The number of lookups
  changes exactly when the attribute is absent, and then by one.
\<close>

theorem precomputed_attribute_skips_store:
  "(config_context_data self = Some None \<or> config_context_data self = Some (Some []) \<longrightarrow>
      snd (get_config_context applies self s) = s
      \<and> (\<not> truthy (local_context_data self) \<longrightarrow> fst (get_config_context applies self s) = Inr [])
      \<and> (\<forall>l. local_context_data self = JObj l \<and> l \<noteq> [] \<and> distinct_keys l \<longrightarrow>
            fst (get_config_context applies self s) = Inr l))
   \<and> (lookups (snd (get_config_context applies self s)) = lookups s
        \<longleftrightarrow> config_context_data self \<noteq> None)
   \<and> (config_context_data self = None \<longrightarrow>
        lookups (snd (get_config_context applies self s)) = Suc (lookups s))"
  by (auto simp: get_config_context_fst get_config_context_snd inherited_context_data_def
        get_for_object_def deepmerge_call_def deepmerge_empty_left split: option.splits)

theorem precomputed_attribute_skips_store_witness:
  "snd (get_config_context (\<lambda>c. True)
          \<lparr>config_context_data = Some None, local_context_data = JObj [(''a'', JInt 9)]\<rparr>
          \<lparr>contexts = [example_base], lookups = 0\<rparr>) = \<lparr>contexts = [example_base], lookups = 0\<rparr>
   \<and> fst (get_config_context (\<lambda>c. True)
          \<lparr>config_context_data = Some None, local_context_data = JObj [(''a'', JInt 9)]\<rparr>
          \<lparr>contexts = [example_base], lookups = 0\<rparr>) = Inr [(''a'', JInt 9)]"
  using precomputed_attribute_skips_store [of
      "\<lparr>config_context_data = Some None, local_context_data = JObj [(''a'', JInt 9)]\<rparr>"
      "\<lambda>c. True" "\<lparr>contexts = [example_base], lookups = 0\<rparr>"]
  by (simp add: distinct_keys_def)

section \<open>Precedence among the inherited contexts\<close>






section \<open>Registering features\<close>

lemma unpack2_Inr_iff: "unpack2 parts = Inr (a, b) \<longleftrightarrow> parts = [a, b]"
  by (cases parts rule: unpack2.cases) auto

lemma map_of_add_model:
  "map_of (add_model a mn b) a' =
     (if a' = a then Some (insert mn (case map_of b a of None \<Rightarrow> {} | Some ms \<Rightarrow> ms))
      else map_of b a')"
  by (simp add: add_model_def update_conv')

lemma distinct_add_model: "distinct (map fst b) \<Longrightarrow> distinct (map fst (add_model a mn b))"
  by (simp add: add_model_def distinct_update)

lemma registered_update:
  "map_of r f' = Some b \<Longrightarrow>
   registered (AList.update f' (add_model a mn b) r) f =
     (if f = f' then insert (a, mn) (registered r f) else registered r f)"
  by (auto simp: registered_def update_conv' map_of_add_model split: option.splits if_splits)

lemma wf_registry_update:
  "wf_registry r \<Longrightarrow> map_of r f' = Some b \<Longrightarrow>
   wf_registry (AList.update f' (add_model a mn b) r)"
  by (auto simp: wf_registry_def update_conv' distinct_add_model)

lemma keys_update: "map_of r f' = Some b \<Longrightarrow> fst ` set (AList.update f' v r) = fst ` set r"
  by (auto simp: dom_update dest: map_of_SomeD intro: rev_image_eqI)


lemma register_features_valid_prefix:
  assumes "split_at CHR ''.'' (label_lower m) = [a, mn]"
    and "set fs \<subseteq> set ef"
    and "set fs \<subseteq> fst ` set r"
  shows "fst (register_features ef m fs r) = Inr ()
         \<and> registered (snd (register_features ef m fs r)) f =
             (if f \<in> set fs then insert (a, mn) (registered r f) else registered r f)
         \<and> fst ` set (snd (register_features ef m fs r)) = fst ` set r
         \<and> (wf_registry r \<longrightarrow> wf_registry (snd (register_features ef m fs r)))"
  using assms
proof (induction fs arbitrary: r)
  case Nil
  then show ?case by simp
next
  case (Cons x fs)
  from Cons.prems obtain b where b: "map_of r x = Some b"
    by (cases "map_of r x") (auto simp: map_of_eq_None_iff)
  let ?r = "AList.update x (add_model a mn b) r"
  have step: "register_features ef m (x # fs) r = register_features ef m fs ?r"
    using Cons.prems b by simp
  have k: "fst ` set ?r = fst ` set r" using b by (rule keys_update)
  from Cons.IH [of ?r] Cons.prems k
  have IH: "fst (register_features ef m fs ?r) = Inr ()"
    "registered (snd (register_features ef m fs ?r)) f =
       (if f \<in> set fs then insert (a, mn) (registered ?r f) else registered ?r f)"
    "fst ` set (snd (register_features ef m fs ?r)) = fst ` set ?r"
    "wf_registry ?r \<longrightarrow> wf_registry (snd (register_features ef m fs ?r))"
    by simp_all
  show ?case
    unfolding step
    using IH k b by (auto simp: registered_update wf_registry_update)
qed

lemma register_features_success:
  assumes "register_features ef m fs r = (Inr (), r')"
  shows "set fs \<subseteq> set ef \<and> set fs \<subseteq> fst ` set r
         \<and> (fs \<noteq> [] \<longrightarrow> (\<exists>a mn. split_at CHR ''.'' (label_lower m) = [a, mn]))"
  using assms
proof (induction fs arbitrary: r)
  case Nil
  then show ?case by simp
next
  case (Cons x fs)
  from Cons.prems have x: "x \<in> set ef"
    by (auto split: if_splits)
  from Cons.prems x obtain a mn where s: "unpack2 (split_at CHR ''.'' (label_lower m)) = Inr (a, mn)"
    by (auto split: sum.splits)
  from Cons.prems x s obtain b where b: "map_of r x = Some b"
    by (auto split: option.splits)
  from Cons.prems x s b
  have r: "register_features ef m fs (AList.update x (add_model a mn b) r) = (Inr (), r')"
    by simp
  from Cons.IH [OF r] keys_update [OF b, of "add_model a mn b"] b x s
  show ?case
    by (auto simp: unpack2_Inr_iff dest: map_of_SomeD intro: rev_image_eqI)
qed

lemma registered_registry_init: "registered (registry_init ef) f = {}"
  by (auto simp: registered_def registry_init_def map_of_map_restrict restrict_map_def
      split: option.splits if_splits)




section \<open>Deferred feature queries\<close>

lemma q_or_kwargs_matches:
  "q_matches (q_or q (Q_kwargs a ms)) ct \<longleftrightarrow>
     (if q = Q_empty then fst ct = a \<and> snd ct \<in> ms
      else q_matches q ct \<or> (fst ct = a \<and> snd ct \<in> ms))"
  by (cases q) auto

lemma q_or_kwargs_nonempty: "q_or q (Q_kwargs a ms) \<noteq> Q_empty"
  by (cases q) auto

lemma or_items_matches_nonempty:
  "q \<noteq> Q_empty \<Longrightarrow>
   q_matches (or_items q b) ct \<longleftrightarrow>
     q_matches q ct \<or> (\<exists>(a, ms) \<in> set b. fst ct = a \<and> snd ct \<in> ms)"
proof (induction b arbitrary: q)
  case Nil
  then show ?case by simp
next
  case (Cons p b)
  obtain a ms where p: "p = (a, ms)" by (cases p)
  from Cons.IH [OF q_or_kwargs_nonempty, of q a ms] Cons.prems p
  show ?case by (auto simp: q_or_kwargs_matches)
qed

lemma or_items_matches:
  "b \<noteq> [] \<Longrightarrow>
   q_matches (or_items Q_empty b) ct \<longleftrightarrow> (\<exists>(a, ms) \<in> set b. fst ct = a \<and> snd ct \<in> ms)"
proof (cases b)
  case Nil
  assume "b \<noteq> []"
  with Nil show ?thesis by simp
next
  case (Cons p b')
  obtain a ms where p: "p = (a, ms)" by (cases p)
  show ?thesis
    using or_items_matches_nonempty [OF q_or_kwargs_nonempty, of Q_empty a ms b' ct] Cons p
    by (auto simp: q_or_kwargs_matches)
qed

lemma get_query_matches:
  assumes wf: "wf_registry r"
    and some: "registered r f \<noteq> {}"
  shows "\<exists>q. get_query \<lparr>feature = f\<rparr> r = Inr q
             \<and> (\<forall>ct. q_matches q ct \<longleftrightarrow> ct \<in> registered r f)"
proof -
  from some obtain b where b: "map_of r f = Some b"
    by (auto simp: registered_def split: option.splits)
  with some have ne: "b \<noteq> []"
    by (auto simp: registered_def)
  from wf b have d: "distinct (map fst b)"
    by (auto simp: wf_registry_def)
  have "\<And>ct. q_matches (or_items Q_empty b) ct \<longleftrightarrow> ct \<in> registered r f"
    using b d by (auto simp: or_items_matches [OF ne] registered_def)
  with b show ?thesis by (simp add: get_query_def)
qed

lemma register_features_registered:
  assumes "register_features ef m fs r = (Inr (), r')"
  shows "registered r' f = registered r f \<union> (if f \<in> set fs then label_pairs m else {})
         \<and> (wf_registry r \<longrightarrow> wf_registry r')"
proof (cases "fs = []")
  case True
  with assms show ?thesis by simp
next
  case False
  from register_features_success [OF assms] False obtain a mn
    where s: "split_at CHR ''.'' (label_lower m) = [a, mn]"
      and v: "set fs \<subseteq> set ef" and k: "set fs \<subseteq> fst ` set r"
    by blast
  from s have lp: "label_pairs m = {(a, mn)}" by (auto simp: label_pairs_def)
  from register_features_valid_prefix [OF s v k, of f] assms lp
  show ?thesis by auto
qed

lemma register_models_registered:
  assumes "register_models ef regs r = (Inr (), r')"
  shows "registered r' f =
           registered r f \<union> (\<Union>(m, fs) \<in> set regs. if f \<in> set fs then label_pairs m else {})
         \<and> (wf_registry r \<longrightarrow> wf_registry r')"
  using assms
proof (induction regs arbitrary: r)
  case Nil
  then show ?case by simp
next
  case (Cons reg regs)
  obtain m fs where reg: "reg = (m, fs)" by (cases reg)
  from Cons.prems reg obtain r1
    where one: "register_features ef m fs r = (Inr (), r1)"
      and rest: "register_models ef regs r1 = (Inr (), r')"
    by (auto split: prod.splits sum.splits)
  from register_features_registered [OF one, of f] Cons.IH [OF rest] reg
  show ?case by auto
qed

lemma register_models_labels:
  assumes "register_models ef regs r = (Inr (), r')"
    and "(m, fs) \<in> set regs"
    and "fs \<noteq> []"
  shows "label_pairs m \<noteq> {}"
  using assms
proof (induction regs arbitrary: r)
  case Nil
  then show ?case by simp
next
  case (Cons reg regs)
  obtain m0 fs0 where reg: "reg = (m0, fs0)" by (cases reg)
  from Cons.prems(1) reg obtain r1
    where one: "register_features ef m0 fs0 r = (Inr (), r1)"
      and rest: "register_models ef regs r1 = (Inr (), r')"
    by (auto split: prod.splits sum.splits)
  show ?case
  proof (cases "(m, fs) = reg")
    case True
    with register_features_success [OF one] reg Cons.prems(3) show ?thesis
      by (auto simp: label_pairs_def)
  next
    case False
    with Cons.prems(2) have "(m, fs) \<in> set regs" by auto
    from Cons.IH [OF rest this Cons.prems(3)] show ?thesis .
  qed
qed

lemma mem_registered_union:
  "(a, mn) \<in> (\<Union>(m, fs) \<in> set regs. if f \<in> set fs then label_pairs m else {}) \<longleftrightarrow>
     (\<exists>(m, fs) \<in> set regs. f \<in> set fs \<and> split_at CHR ''.'' (label_lower m) = [a, mn])"
  by (simp add: label_pairs_def split_beta if_distrib [of "\<lambda>S. (a, mn) \<in> S"] cong: if_cong)
    blast

lemma wf_registry_init: "wf_registry (registry_init ef)"
  by (auto simp: wf_registry_def registry_init_def dest!: map_of_SomeD)

text \<open>
  C8: a \<open>FeatureQuery\<close> is built from the feature name alone, so building it before any
  registration is building it against the empty registry. Called after a start-up in which
  at least one model registered for the feature, it returns a query that a content type
  passes exactly when it is the (app label, model name) pair of a model registered for the
  feature.
\<close>

theorem feature_query_is_deferred:
  assumes startup: "register_models extras_features regs (registry_init extras_features) = (Inr (), r)"
    and some: "\<exists>(m, fs) \<in> set regs. f \<in> set fs"
  shows "\<exists>q. FeatureQuery_call (FeatureQuery_init f) r = Inr q
             \<and> (\<forall>app_label model_name.
                   q_matches q (app_label, model_name) \<longleftrightarrow>
                   (\<exists>(m, fs) \<in> set regs. f \<in> set fs
                      \<and> split_at CHR ''.'' (label_lower m) = [app_label, model_name]))"
proof -
  from register_models_registered [OF startup, of f]
  have reg: "registered r f = (\<Union>(m, fs) \<in> set regs. if f \<in> set fs then label_pairs m else {})"
    and wf: "wf_registry r"
    by (simp_all add: registered_registry_init wf_registry_init)
  from some obtain m fs where mf: "(m, fs) \<in> set regs" and f: "f \<in> set fs"
    by blast
  then have "fs \<noteq> []" by auto
  from register_models_labels [OF startup mf this] obtain p where "p \<in> label_pairs m"
    by blast
  with mf f have "p \<in> (\<Union>(m, fs) \<in> set regs. if f \<in> set fs then label_pairs m else {})"
    by force
  with reg have "registered r f \<noteq> {}" by auto
  from get_query_matches [OF wf this] obtain q
    where q: "get_query \<lparr>feature = f\<rparr> r = Inr q"
      and m: "\<And>ct. q_matches q ct \<longleftrightarrow> ct \<in> registered r f"
    by blast
  have "\<And>a mn. q_matches q (a, mn) \<longleftrightarrow>
          (\<exists>(m, fs) \<in> set regs. f \<in> set fs \<and> split_at CHR ''.'' (label_lower m) = [a, mn])"
    unfolding m reg by (rule mem_registered_union)
  with q show ?thesis
    by (simp add: FeatureQuery_call_def FeatureQuery_init_def)
qed

theorem feature_query_is_deferred_witness:
  "\<exists>q. FeatureQuery_call (FeatureQuery_init ''tags'')
          [(''tags'', [(''dcim'', {''device'', ''site''})]), (''webhooks'', [(''dcim'', {''device''})])]
        = Inr q
      \<and> (\<forall>app_label model_name.
            q_matches q (app_label, model_name) \<longleftrightarrow>
            (app_label = ''dcim'' \<and> (model_name = ''site'' \<or> model_name = ''device'')))"
proof -
  have startup: "register_models [''tags'', ''webhooks'']
       [(\<lparr>label_lower = ''dcim.site''\<rparr>, [''tags'']),
        (\<lparr>label_lower = ''dcim.device''\<rparr>, [''tags'', ''webhooks''])]
       (registry_init [''tags'', ''webhooks''])
     = (Inr (), [(''tags'', [(''dcim'', {''device'', ''site''})]),
                 (''webhooks'', [(''dcim'', {''device''})])])"
    by (simp add: registry_init_def add_model_def)
  have some: "\<exists>(m, fs) \<in> set [(\<lparr>label_lower = ''dcim.site''\<rparr>, [''tags'']),
        (\<lparr>label_lower = ''dcim.device''\<rparr>, [''tags'', ''webhooks''])]. ''tags'' \<in> set fs"
    by simp
  from feature_query_is_deferred [OF startup some] show ?thesis
    by (auto cong: conj_cong)
qed

section \<open>Order dependence and regrouping of merges\<close>

lemma deepmerge_assoc:
  "wf_dict A \<Longrightarrow> wf_dict B \<Longrightarrow> wf_dict C \<Longrightarrow> merge_assoc_ok A B C \<Longrightarrow>
   deepmerge (deepmerge A B) C = deepmerge A (deepmerge B C)"
proof (induction "size (JObj A)" arbitrary: A B C rule: less_induct)
  case less
  note wfA = less.prems(1) and wfB = less.prems(2) and wfC = less.prems(3)
    and ok = less.prems(4)
  have dA: "distinct (map fst A)" and dB: "distinct (map fst B)" and dC: "distinct (map fst C)"
    using wfA wfB wfC by (simp_all add: wf_dict_distinct)
  have dAB: "distinct (map fst (deepmerge A B))" and dBC: "distinct (map fst (deepmerge B C))"
    using dA dB dC by (simp_all add: deepmerge_distinct)
  have kAB: "map fst (deepmerge A B) = map fst A @ filter (\<lambda>k. k \<notin> fst ` set A) (map fst B)"
    using dB by (rule deepmerge_keys)
  have kBC: "map fst (deepmerge B C) = map fst B @ filter (\<lambda>k. k \<notin> fst ` set B) (map fst C)"
    using dC by (rule deepmerge_keys)
  have sAB: "fst ` set (deepmerge A B) = fst ` set A \<union> fst ` set B"
  proof -
    have "set (map fst (deepmerge A B)) = set (map fst A) \<union> set (map fst B)"
      unfolding kAB by auto
    then show ?thesis by simp
  qed
  have keys_eq: "map fst (deepmerge (deepmerge A B) C) = map fst (deepmerge A (deepmerge B C))"
  proof -
    have "map fst (deepmerge (deepmerge A B) C) =
        map fst A @ filter (\<lambda>k. k \<notin> fst ` set A) (map fst B)
          @ filter (\<lambda>k. k \<notin> fst ` set A \<union> fst ` set B) (map fst C)"
      using deepmerge_keys [OF dC, of "deepmerge A B"] by (simp add: kAB sAB)
    moreover have "map fst (deepmerge A (deepmerge B C)) =
        map fst A @ filter (\<lambda>k. k \<notin> fst ` set A) (map fst B)
          @ filter (\<lambda>k. k \<notin> fst ` set A \<union> fst ` set B) (map fst C)"
      using deepmerge_keys [OF dBC, of A] by (simp add: kBC conj_commute)
    ultimately show ?thesis by simp
  qed
  have lookup_eq: "map_of (deepmerge (deepmerge A B) C) k = map_of (deepmerge A (deepmerge B C)) k"
    for k
  proof (cases "map_of C k")
    case None
    then show ?thesis
      by (simp add: deepmerge_lookup dB dC dBC split: option.splits)
  next
    case cSome: (Some c)
    show ?thesis
    proof (cases "map_of B k")
      case None
      with cSome show ?thesis
        by (simp add: deepmerge_lookup dB dC dBC)
    next
      case bSome: (Some b)
      have core: "merged_value (Some (merged_value (map_of A k) b)) c
                  = merged_value (map_of A k) (merged_value (Some b) c)"
      proof (cases "is_dict c")
        case False
        then show ?thesis by (simp add: merged_value_non_dict)
      next
        case cdict: True
        then obtain c' where c: "c = JObj c'" by (auto simp: is_dict_iff)
        show ?thesis
        proof (cases "is_dict b")
          case bnd: False
          have "\<not> (\<exists>a'. map_of A k = Some (JObj a'))"
          proof
            assume "\<exists>a'. map_of A k = Some (JObj a')"
            then obtain a' where "map_of A k = Some (JObj a')" by blast
            then have "(k, JObj a') \<in> set A" by (rule map_of_SomeD)
            from merge_assoc_ok_entry [OF ok this _ bSome] cSome c bnd
            show False by auto
          qed
          then have "merged_value (map_of A k) c = c"
            by (cases "map_of A k")
               (auto simp: merged_value_old_non_dict is_dict_iff)
          with bnd show ?thesis
            by (simp add: merged_value_non_dict merged_value_old_non_dict)
        next
          case True
          then obtain b' where b: "b = JObj b'" by (auto simp: is_dict_iff)
          show ?thesis
          proof (cases "\<exists>a'. map_of A k = Some (JObj a')")
            case True
            then obtain a' where a: "map_of A k = Some (JObj a')" by blast
            then have inA: "(k, JObj a') \<in> set A" by (rule map_of_SomeD)
            have inB: "(k, JObj b') \<in> set B" using bSome b by (auto dest: map_of_SomeD)
            have inC: "(k, JObj c') \<in> set C" using cSome c by (auto dest: map_of_SomeD)
            from merge_assoc_ok_entry [OF ok inA _ bSome] cSome c b
            have ok': "merge_assoc_ok a' b' c'" by auto
            have "deepmerge (deepmerge a' b') c' = deepmerge a' (deepmerge b' c')"
              using less.hyps [OF entry_size [OF inA] wf_dict_entry [OF wfA inA]
                  wf_dict_entry [OF wfB inB] wf_dict_entry [OF wfC inC] ok'] .
            with a b c show ?thesis by simp
          next
            case False
            then have "\<And>v. merged_value (map_of A k) v = v"
              by (cases "map_of A k")
                 (auto simp: merged_value_old_non_dict is_dict_iff)
            with b c show ?thesis by simp
          qed
        qed
      qed
      with cSome bSome show ?thesis
        by (simp add: deepmerge_lookup dB dC dBC)
    qed
  qed
  have "distinct (map fst (deepmerge (deepmerge A B) C))"
    using dAB dC by (rule deepmerge_distinct)
  then show ?case
    using keys_eq lookup_eq by (rule alist_eqI)
qed

text \<open>
  C9, as stated, fails in its second half: merging is not associative. With
  \<open>A = {"k": {"x": 1}}\<close>, \<open>B = {"k": 5}\<close> and \<open>C = {"k": {"y": 2}}\<close>, merging
  \<open>A\<close> with \<open>B\<close> and the result with \<open>C\<close> gives \<open>{"k": {"y": 2}}\<close>, while merging
  \<open>A\<close> with the merge of \<open>B\<close> and \<open>C\<close> gives \<open>{"k": {"x": 1, "y": 2}}\<close>.
\<close>

theorem deepmerge_not_associative:
  "deepmerge (deepmerge [(''k'', JObj [(''x'', JInt 1)])] [(''k'', JInt 5)])
       [(''k'', JObj [(''y'', JInt 2)])]
     = [(''k'', JObj [(''y'', JInt 2)])]
   \<and> deepmerge [(''k'', JObj [(''x'', JInt 1)])]
       (deepmerge [(''k'', JInt 5)] [(''k'', JObj [(''y'', JInt 2)])])
     = [(''k'', JObj [(''x'', JInt 1), (''y'', JInt 2)])]
   \<and> deepmerge (deepmerge [(''k'', JObj [(''x'', JInt 1)])] [(''k'', JInt 5)])
       [(''k'', JObj [(''y'', JInt 2)])]
     \<noteq> deepmerge [(''k'', JObj [(''x'', JInt 1)])]
       (deepmerge [(''k'', JInt 5)] [(''k'', JObj [(''y'', JInt 2)])])"
  by (simp add: deepmerge.simps)

text \<open>
  C9, amended: deep-merge application is order-dependent: there are mappings A, B, C, with
  B and C setting the same key, for which merging A with B and then C differs from merging
  A with C and then B. Merging is not associative in general: there are decoded JSON
  objects for which the two groupings differ. It is associative whenever the three objects
  (decoded, so without repeated keys) satisfy a sufficient shape condition: wherever the
  first and the third hold an object under a key, the second omits the key or holds an
  object too, at every depth. The condition is not claimed to be necessary.
\<close>

theorem deepmerge_order_dependent_conditionally_associative:
  "(\<exists>A B C k. k \<in> keys B \<and> k \<in> keys C
       \<and> deepmerge (deepmerge A B) C \<noteq> deepmerge (deepmerge A C) B)
   \<and> (\<exists>A B C. wf_dict A \<and> wf_dict B \<and> wf_dict C
       \<and> deepmerge (deepmerge A B) C \<noteq> deepmerge A (deepmerge B C))
   \<and> (wf_dict A \<and> wf_dict B \<and> wf_dict C \<and> merge_assoc_ok A B C \<longrightarrow>
        deepmerge (deepmerge A B) C = deepmerge A (deepmerge B C))"
proof (intro conjI)
  have "''k'' \<in> keys [(''k'', JInt 1)] \<and> ''k'' \<in> keys [(''k'', JInt 2)]
      \<and> deepmerge (deepmerge [] [(''k'', JInt 1)]) [(''k'', JInt 2)]
        \<noteq> deepmerge (deepmerge [] [(''k'', JInt 2)]) [(''k'', JInt 1)]"
    by (simp add: deepmerge.simps keys_def)
  then show "\<exists>A B C k. k \<in> keys B \<and> k \<in> keys C
       \<and> deepmerge (deepmerge A B) C \<noteq> deepmerge (deepmerge A C) B"
    by blast
next
  have "wf_dict [(''k'', JObj [(''x'', JInt 1)])] \<and> wf_dict [(''k'', JInt 5)]
      \<and> wf_dict [(''k'', JObj [(''y'', JInt 2)])]
      \<and> deepmerge (deepmerge [(''k'', JObj [(''x'', JInt 1)])] [(''k'', JInt 5)])
            [(''k'', JObj [(''y'', JInt 2)])]
        \<noteq> deepmerge [(''k'', JObj [(''x'', JInt 1)])]
            (deepmerge [(''k'', JInt 5)] [(''k'', JObj [(''y'', JInt 2)])])"
    by (simp add: deepmerge.simps)
  then show "\<exists>A B C. wf_dict A \<and> wf_dict B \<and> wf_dict C
       \<and> deepmerge (deepmerge A B) C \<noteq> deepmerge A (deepmerge B C)"
    by blast
next
  show "wf_dict A \<and> wf_dict B \<and> wf_dict C \<and> merge_assoc_ok A B C \<longrightarrow>
        deepmerge (deepmerge A B) C = deepmerge A (deepmerge B C)"
    by (simp add: deepmerge_assoc)
qed

theorem deepmerge_order_dependent_conditionally_associative_witness:
  "deepmerge (deepmerge [(''a'', JInt 1), (''b'', JObj [(''x'', JInt 1)])]
                        [(''b'', JObj [(''y'', JInt 2)]), (''c'', JInt 3)])
             [(''a'', JInt 9), (''b'', JObj [(''x'', JInt 7)])]
     = deepmerge [(''a'', JInt 1), (''b'', JObj [(''x'', JInt 1)])]
         (deepmerge [(''b'', JObj [(''y'', JInt 2)]), (''c'', JInt 3)]
                    [(''a'', JInt 9), (''b'', JObj [(''x'', JInt 7)])])
   \<and> deepmerge [(''a'', JInt 1), (''b'', JObj [(''x'', JInt 1)])]
         (deepmerge [(''b'', JObj [(''y'', JInt 2)]), (''c'', JInt 3)]
                    [(''a'', JInt 9), (''b'', JObj [(''x'', JInt 7)])])
     = [(''a'', JInt 9), (''b'', JObj [(''x'', JInt 7), (''y'', JInt 2)]), (''c'', JInt 3)]"
  using deepmerge_order_dependent_conditionally_associative
    [of "[(''a'', JInt 1), (''b'', JObj [(''x'', JInt 1)])]"
        "[(''b'', JObj [(''y'', JInt 2)]), (''c'', JInt 3)]"
        "[(''a'', JInt 9), (''b'', JObj [(''x'', JInt 7)])]"]
  by (simp add: deepmerge.simps)

end
